theory Spec2Isabelle
  imports Main "HOL-Library.AList"
begin

section \<open>The YAML parse tree and Python's container protocol on it\<close>

text \<open>
  The value held in \<open>self._yaml\<close>: what \<open>ruamel.yaml\<close>'s round-trip loader
  returns. \<open>YNull\<close> is Python's \<open>None\<close> (the loader's result for an empty
  document). A mapping keeps its entries in insertion order and carries an optional start
  comment (\<open>CommentedMap.yaml_set_start_comment\<close>); the plain \<open>dict()\<close> that
  \<open>_ensure_section\<close> inserts is a mapping without comment. Mapping keys are strings,
  as the docstrings of the accessors have them ("each segment is a dictionary key",
  "key (str)"). The tree is a value: two paths never share one node (no YAML alias).
\<close>

datatype yaml =
    YNull
  | YBool bool
  | YInt int
  | YStr string
  | YSeq "yaml list"
  | YMap "string option" "(string \<times> yaml) list"

text \<open>
  The exceptions that the code raises or meets. \<open>IOError\<close> carries its \<open>errno\<close>
  (it stands for \<open>OSError\<close> too, which \<open>os.rename\<close> raises); \<open>YAMLError\<close>
  carries its text \<open>str(e)\<close>; \<open>ValueError\<close> carries its message;
  \<open>CallbackError\<close> is whatever a transformer passed to \<open>transform_yaml\<close> raises.
\<close>

datatype error =
    IOError nat
  | YAMLError string
  | UnicodeDecodeError
  | ValueError string
  | TypeError
  | AttributeError
  | KeyError string
  | CallbackError string

type_synonym 'a result = "error + 'a"

definition ENOENT :: nat where
  "ENOENT = 2"

definition EACCES :: nat where
  "EACCES = 13"

fun is_prefix :: "string \<Rightarrow> string \<Rightarrow> bool" where
  "is_prefix [] s = True"
| "is_prefix (x # xs) [] = False"
| "is_prefix (x # xs) (y # ys) = (x = y \<and> is_prefix xs ys)"

text \<open>Python's \<open>p in s\<close> on two strings: \<open>p\<close> occurs in \<open>s\<close> as a substring.\<close>

fun is_substring :: "string \<Rightarrow> string \<Rightarrow> bool" where
  "is_substring p [] = (p = [])"
| "is_substring p (c # cs) = (is_prefix p (c # cs) \<or> is_substring p cs)"

text \<open>
  \<open>p in current\<close> for a string \<open>p\<close>: key membership on a mapping, element
  membership on a sequence, substring test on a string, \<open>TypeError\<close> on a number, a
  boolean or \<open>None\<close> (not iterable).
\<close>

fun py_contains :: "string \<Rightarrow> yaml \<Rightarrow> bool result" where
  "py_contains p (YMap c m) = Inr (map_of m p \<noteq> None)"
| "py_contains p (YSeq xs) = Inr (YStr p \<in> set xs)"
| "py_contains p (YStr s) = Inr (is_substring p s)"
| "py_contains p (YInt i) = Inl TypeError"
| "py_contains p (YBool b) = Inl TypeError"
| "py_contains p YNull = Inl TypeError"

text \<open>
  \<open>current[p]\<close> for a string \<open>p\<close>: the value on a mapping (\<open>KeyError\<close> when the
  key is missing), \<open>TypeError\<close> on every other node (a sequence and a string take integer
  indices only; a number, a boolean and \<open>None\<close> are not subscriptable).
\<close>

fun py_getitem :: "yaml \<Rightarrow> string \<Rightarrow> yaml result" where
  "py_getitem (YMap c m) p = (case map_of m p of None \<Rightarrow> Inl (KeyError p) | Some v \<Rightarrow> Inr v)"
| "py_getitem (YSeq xs) p = Inl TypeError"
| "py_getitem (YStr s) p = Inl TypeError"
| "py_getitem (YInt i) p = Inl TypeError"
| "py_getitem (YBool b) p = Inl TypeError"
| "py_getitem YNull p = Inl TypeError"

text \<open>
  \<open>current[p] = v\<close> for a string \<open>p\<close>, returning the container after the assignment:
  a mapping replaces the value of an existing key in place and appends a new key at the end;
  every other node raises \<open>TypeError\<close>.
\<close>

fun py_setitem :: "yaml \<Rightarrow> string \<Rightarrow> yaml \<Rightarrow> yaml result" where
  "py_setitem (YMap c m) p v = Inr (YMap c (AList.update p v m))"
| "py_setitem (YSeq xs) p v = Inl TypeError"
| "py_setitem (YStr s) p v = Inl TypeError"
| "py_setitem (YInt i) p v = Inl TypeError"
| "py_setitem (YBool b) p v = Inl TypeError"
| "py_setitem YNull p v = Inl TypeError"

text \<open>
  \<open>existing.get(key, default)\<close>: only a mapping has the method; every other node
  raises \<open>AttributeError\<close>.
\<close>

fun py_get :: "yaml \<Rightarrow> string \<Rightarrow> yaml \<Rightarrow> yaml result" where
  "py_get (YMap c m) key dflt = Inr (case map_of m key of None \<Rightarrow> dflt | Some v \<Rightarrow> v)"
| "py_get (YSeq xs) key dflt = Inl AttributeError"
| "py_get (YStr s) key dflt = Inl AttributeError"
| "py_get (YInt i) key dflt = Inl AttributeError"
| "py_get (YBool b) key dflt = Inl AttributeError"
| "py_get YNull key dflt = Inl AttributeError"

text \<open>
  The tree is mutated in place through the reference \<open>current\<close>. In the model a loop that
  descends into a child and mutates it writes the child back into its slot of the parent.
\<close>

fun store_back :: "yaml \<Rightarrow> string \<Rightarrow> yaml \<Rightarrow> yaml" where
  "store_back (YMap c m) p child = YMap c (AList.update p child m)"
| "store_back t p child = t"

text \<open>
  \<open>section_path.split(".")\<close>: one piece more than there are dots; pieces may be empty,
  and the empty path is the single empty piece.
\<close>

fun split_dot :: "string \<Rightarrow> string list" where
  "split_dot [] = [[]]"
| "split_dot (c # cs) =
     (if c = CHR ''.'' then [] # split_dot cs
      else (case split_dot cs of [] \<Rightarrow> [[c]] | p # ps \<Rightarrow> (c # p) # ps))"

section \<open>The file system and the external parser\<close>

text \<open>
  What the code sees of the operating system. A regular file holds text, or bytes that are
  not UTF-8 (\<open>Undecodable\<close>). \<open>fault\<close> says which call on which path the system
  refuses, and with which \<open>errno\<close> (permission denied, disk full, ...). Directories are
  not tracked: creating one has no effect that the code reads back.
\<close>

datatype fdata = Text string | Undecodable

datatype syscall = OpenRead | OpenWrite | Write | Rename | Remove | Makedirs

record world =
  files :: "string \<rightharpoonup> fdata"
  fault :: "syscall \<Rightarrow> string \<rightharpoonup> nat"

text \<open>\<open>codecs.open(filename, 'r', 'utf-8')\<close>: \<open>ENOENT\<close> when there is no such file.\<close>

definition os_open_read :: "world \<Rightarrow> string \<Rightarrow> fdata result" where
  "os_open_read w p =
     (case fault w OpenRead p of
        Some e \<Rightarrow> Inl (IOError e)
      | None \<Rightarrow> (case files w p of None \<Rightarrow> Inl (IOError ENOENT) | Some data \<Rightarrow> Inr data))"

text \<open>\<open>file.read()\<close> through the UTF-8 decoder.\<close>

definition file_read :: "fdata \<Rightarrow> string result" where
  "file_read data = (case data of Undecodable \<Rightarrow> Inl UnicodeDecodeError | Text s \<Rightarrow> Inr s)"

definition isfile :: "world \<Rightarrow> string \<Rightarrow> bool" where
  "isfile w p = (files w p \<noteq> None)"

text \<open>
  \<open>os.path.dirname\<close> (POSIX): everything up to the last slash, without trailing slashes
  unless it consists of slashes only.
\<close>

definition dirname :: "string \<Rightarrow> string" where
  "dirname p =
     (let r = dropWhile (\<lambda>c. c \<noteq> CHR ''/'') (rev p)
      in if r \<noteq> [] \<and> (\<exists>c \<in> set r. c \<noteq> CHR ''/'')
         then rev (dropWhile (\<lambda>c. c = CHR ''/'') r) else rev r)"

text \<open>
  Modelled from the spec: \<open>project.internal.makedirs.makedirs_ok_if_exists\<close>, the
  directory-ensure helper that \<open>save\<close> calls and that is not among the sources: "given a
  directory path, create it and all missing parents; success if it already exists". Any
  other refusal of the system is raised.
\<close>

definition makedirs_ok_if_exists :: "world \<Rightarrow> string \<Rightarrow> world \<times> unit result" where
  "makedirs_ok_if_exists w dir =
     (case fault w Makedirs dir of Some e \<Rightarrow> (w, Inl (IOError e)) | None \<Rightarrow> (w, Inr ()))"

text \<open>
  \<open>os.remove(tmp)\<close> inside \<open>try: ... except (IOError, OSError): pass\<close>: the file goes
  away if it is there and the system allows it; nothing is raised either way.
\<close>

definition remove_quietly :: "world \<Rightarrow> string \<Rightarrow> world" where
  "remove_quietly w p =
     (if files w p \<noteq> None \<and> fault w Remove p = None
      then w\<lparr>files := (files w)(p := None)\<rparr> else w)"

text \<open>
  The \<open>try\<close> block of \<open>_atomic_replace\<close>: open the temporary file for writing (this
  creates or truncates it), write and flush the contents, rename it over the target. A write
  that fails leaves the temporary file behind, modelled as still empty.
\<close>

definition write_and_rename :: "world \<Rightarrow> string \<Rightarrow> string \<Rightarrow> string \<Rightarrow> world \<times> unit result" where
  "write_and_rename w tmp path contents =
     (case fault w OpenWrite tmp of
        Some e \<Rightarrow> (w, Inl (IOError e))
      | None \<Rightarrow>
          (let w1 = w\<lparr>files := (files w)(tmp \<mapsto> Text [])\<rparr> in
           case fault w Write tmp of
             Some e \<Rightarrow> (w1, Inl (IOError e))
           | None \<Rightarrow>
               (let w2 = w1\<lparr>files := (files w1)(tmp \<mapsto> Text contents)\<rparr> in
                case fault w Rename tmp of
                  Some e \<Rightarrow> (w2, Inl (IOError e))
                | None \<Rightarrow>
                    (w2\<lparr>files := ((files w2)(tmp := None))(path \<mapsto> Text contents)\<rparr>,
                     Inr ()))))"

text \<open>\<open>_atomic_replace\<close>: the \<open>try\<close> block, then the \<open>finally\<close> clause on every exit.\<close>

definition atomic_replace :: "world \<Rightarrow> string \<Rightarrow> string \<Rightarrow> world \<times> unit result" where
  "atomic_replace w path contents =
     (let tmp = path @ ''.tmp'' in
      case write_and_rename w tmp path contents of
        (w', r) \<Rightarrow> (remove_quietly w' tmp, r))"

text \<open>
  The parser and the serialiser are \<open>ruamel.yaml\<close>'s, an external library, taken as a
  parameter. \<open>yaml_load\<close> returns the tree (\<open>YNull\<close> for an empty document) or
  raises: a \<open>YAMLError\<close> on a document it rejects, or whatever other exception escapes
  from it (the constructor of a scalar may raise \<open>ValueError\<close>).
\<close>

record codec =
  yaml_load :: "string \<Rightarrow> yaml result"
  yaml_dump :: "yaml \<Rightarrow> string"

section \<open>The class \<open>YamlFile\<close>\<close>

record yaml_file =
  filename :: string
  dirty :: bool
  corrupted :: bool
  corrupted_error_message :: "string option"
  yaml :: yaml

definition default_comment :: string where
  "default_comment = ''yaml file''"

text \<open>The end of \<open>load\<close>: a fresh commented mapping where the tree is \<open>None\<close>.\<close>

definition fresh_if_none :: "yaml_file \<Rightarrow> yaml_file" where
  "fresh_if_none d =
     (if yaml d = YNull
      then d\<lparr>yaml := YMap (Some default_comment) [], dirty := True\<rparr>
      else d)"

text \<open>
  The \<open>try\<close> block of \<open>load\<close>: open the file, read and decode it, parse the text.
  The first exception ends the block.
\<close>

definition read_and_parse :: "codec \<Rightarrow> world \<Rightarrow> string \<Rightarrow> yaml result" where
  "read_and_parse c w fname =
     (case os_open_read w fname of
        Inl e \<Rightarrow> Inl e
      | Inr data \<Rightarrow>
          (case file_read data of
             Inl e \<Rightarrow> Inl e
           | Inr contents \<Rightarrow> yaml_load c contents))"

text \<open>
  \<open>load\<close>. The file system is only read. The two \<open>except\<close> clauses catch an
  \<open>IOError\<close> (re-raised unless its \<open>errno\<close> is \<open>ENOENT\<close>) and a
  \<open>YAMLError\<close>; any other exception leaves the method as it is. An exception that
  leaves the method does so after the two flags were reset, with the tree and \<open>_dirty\<close>
  as they were.
\<close>

definition load :: "codec \<Rightarrow> world \<Rightarrow> yaml_file \<Rightarrow> yaml_file \<times> unit result" where
  "load c w d =
     (let d1 = d\<lparr>corrupted := False, corrupted_error_message := None\<rparr> in
      case read_and_parse c w (filename d1) of
        Inr t \<Rightarrow> (fresh_if_none (d1\<lparr>yaml := t, dirty := False\<rparr>), Inr ())
      | Inl err \<Rightarrow>
          (case err of
             IOError e \<Rightarrow>
               (if e = ENOENT then (fresh_if_none (d1\<lparr>yaml := YNull\<rparr>), Inr ())
                else (d1, Inl err))
           | YAMLError msg \<Rightarrow>
               (fresh_if_none
                  (d1\<lparr>corrupted := True, corrupted_error_message := Some msg,
                      yaml := YNull\<rparr>), Inr ())
           | _ \<Rightarrow> (d1, Inl err)))"

text \<open>
  \<open>__init__\<close>: the object exists only if \<open>load\<close> returns. \<open>load\<close> assigns
  \<open>_corrupted\<close> and \<open>_corrupted_error_message\<close> before it reads them and \<open>_yaml\<close>
  on every path that returns, so the values these attributes get here are never seen.
\<close>

definition YamlFile :: "codec \<Rightarrow> world \<Rightarrow> string \<Rightarrow> yaml_file result" where
  "YamlFile c w fname =
     (case load c w \<lparr>filename = fname, dirty = False, corrupted = False,
                     corrupted_error_message = None, yaml = YNull\<rparr> of
        (d, Inl e) \<Rightarrow> Inl e
      | (d, Inr u) \<Rightarrow> Inr d)"

definition corrupted_message_text :: "yaml_file \<Rightarrow> string" where
  "corrupted_message_text d =
     ''Cannot modify corrupted YAML file '' @ filename d @ [CHR 0x0A] @
       (case corrupted_error_message d of None \<Rightarrow> ''None'' | Some m \<Rightarrow> m)"

definition throw_if_corrupted :: "yaml_file \<Rightarrow> unit result" where
  "throw_if_corrupted d =
     (if corrupted d then Inl (ValueError (corrupted_message_text d)) else Inr ())"

definition save :: "codec \<Rightarrow> world \<Rightarrow> yaml_file \<Rightarrow> (world \<times> yaml_file) \<times> unit result" where
  "save c w d =
     (case throw_if_corrupted d of
        Inl e \<Rightarrow> ((w, d), Inl e)
      | Inr u \<Rightarrow>
          if \<not> dirty d then ((w, d), Inr ())
          else
            (let contents = yaml_dump c (yaml d) in
             case (if \<not> isfile w (filename d)
                   then makedirs_ok_if_exists w (dirname (filename d))
                   else (w, Inr ())) of
               (w1, Inl e) \<Rightarrow> ((w1, d), Inl e)
             | (w1, Inr u1) \<Rightarrow>
                 (case atomic_replace w1 (filename d) contents of
                    (w2, Inl e) \<Rightarrow> ((w2, d), Inl e)
                  | (w2, Inr u2) \<Rightarrow> ((w2, d\<lparr>dirty := False\<rparr>), Inr ()))))"

text \<open>
  \<open>transform_yaml\<close>. The transformer gets the tree, may mutate it, and returns a value or
  raises; the mark is set unless the value is \<open>True\<close> itself.
\<close>

definition transform_yaml ::
  "yaml_file \<Rightarrow> (yaml \<Rightarrow> yaml \<times> yaml result) \<Rightarrow> yaml_file \<times> unit result" where
  "transform_yaml d transformer =
     (case throw_if_corrupted d of
        Inl e \<Rightarrow> (d, Inl e)
      | Inr u \<Rightarrow>
          (case transformer (yaml d) of
             (t, Inl e) \<Rightarrow> (d\<lparr>yaml := t\<rparr>, Inl e)
           | (t, Inr res) \<Rightarrow>
               (if res \<noteq> YBool True then (d\<lparr>yaml := t, dirty := True\<rparr>, Inr ())
                else (d\<lparr>yaml := t\<rparr>, Inr ()))))"

text \<open>The loop of \<open>_get_section_or_none\<close>; \<open>return None\<close> is \<open>Inr YNull\<close>.\<close>

fun get_section_loop :: "string list \<Rightarrow> yaml \<Rightarrow> yaml result" where
  "get_section_loop [] current = Inr current"
| "get_section_loop (p # ps) current =
     (case py_contains p current of
        Inl e \<Rightarrow> Inl e
      | Inr present \<Rightarrow>
          if present
          then (case py_getitem current p of
                  Inl e \<Rightarrow> Inl e
                | Inr child \<Rightarrow> get_section_loop ps child)
          else Inr YNull)"

definition get_section_or_none :: "yaml_file \<Rightarrow> string \<Rightarrow> yaml result" where
  "get_section_or_none d section_path = get_section_loop (split_dot section_path) (yaml d)"

text \<open>
  The loop of \<open>_ensure_section\<close> on the node \<open>current\<close>: the node after the loop,
  whether \<open>self._dirty = True\<close> was executed, and the node returned or the exception.
\<close>

fun ensure_loop :: "string list \<Rightarrow> yaml \<Rightarrow> yaml \<times> bool \<times> yaml result" where
  "ensure_loop [] current = (current, False, Inr current)"
| "ensure_loop (p # ps) current =
     (case py_contains p current of
        Inl e \<Rightarrow> (current, False, Inl e)
      | Inr present \<Rightarrow>
          (case (if present then Inr current else py_setitem current p (YMap None [])) of
             Inl e \<Rightarrow> (current, False, Inl e)
           | Inr current1 \<Rightarrow>
               (case py_getitem current1 p of
                  Inl e \<Rightarrow> (current1, \<not> present, Inl e)
                | Inr child \<Rightarrow>
                    (case ensure_loop ps child of
                       (child', marked, r) \<Rightarrow>
                         (store_back current1 p child', \<not> present \<or> marked, r)))))"

definition ensure_section :: "yaml_file \<Rightarrow> string \<Rightarrow> yaml_file \<times> yaml result" where
  "ensure_section d section_path =
     (case throw_if_corrupted d of
        Inl e \<Rightarrow> (d, Inl e)
      | Inr u \<Rightarrow>
          (case ensure_loop (split_dot section_path) (yaml d) of
             (t, marked, r) \<Rightarrow>
               ((if marked then d\<lparr>yaml := t, dirty := True\<rparr> else d\<lparr>yaml := t\<rparr>), r)))"

text \<open>
  \<open>existing[key] = value\<close>, where \<open>existing\<close> is the node that \<open>_ensure_section\<close>
  returned: the node of the tree at the end of the path.
\<close>

fun assign_in_section :: "string list \<Rightarrow> string \<Rightarrow> yaml \<Rightarrow> yaml \<Rightarrow> yaml result" where
  "assign_in_section [] key v current = py_setitem current key v"
| "assign_in_section (p # ps) key v current =
     (case py_getitem current p of
        Inl e \<Rightarrow> Inl e
      | Inr child \<Rightarrow>
          (case assign_in_section ps key v child of
             Inl e \<Rightarrow> Inl e
           | Inr child' \<Rightarrow> Inr (store_back current p child')))"

text \<open>The loop \<open>for k, v in values.items()\<close> of \<open>set_values\<close>.\<close>

fun set_values_loop ::
  "string list \<Rightarrow> (string \<times> yaml) list \<Rightarrow> yaml_file \<Rightarrow> yaml_file \<times> unit result" where
  "set_values_loop pieces [] d = (d, Inr ())"
| "set_values_loop pieces ((k, v) # kvs) d =
     (case assign_in_section pieces k v (yaml d) of
        Inl e \<Rightarrow> (d, Inl e)
      | Inr t \<Rightarrow> set_values_loop pieces kvs (d\<lparr>yaml := t, dirty := True\<rparr>))"

definition set_values ::
  "yaml_file \<Rightarrow> string \<Rightarrow> (string \<times> yaml) list \<Rightarrow> yaml_file \<times> unit result" where
  "set_values d section_path vals =
     (case throw_if_corrupted d of
        Inl e \<Rightarrow> (d, Inl e)
      | Inr u \<Rightarrow>
          (case ensure_section d section_path of
             (d1, Inl e) \<Rightarrow> (d1, Inl e)
           | (d1, Inr existing) \<Rightarrow> set_values_loop (split_dot section_path) vals d1))"

definition set_value :: "yaml_file \<Rightarrow> string \<Rightarrow> string \<Rightarrow> yaml \<Rightarrow> yaml_file \<times> unit result" where
  "set_value d section_path key v =
     (case throw_if_corrupted d of
        Inl e \<Rightarrow> (d, Inl e)
      | Inr u \<Rightarrow>
          (case ensure_section d section_path of
             (d1, Inl e) \<Rightarrow> (d1, Inl e)
           | (d1, Inr existing) \<Rightarrow>
               (case assign_in_section (split_dot section_path) key v (yaml d1) of
                  Inl e \<Rightarrow> (d1, Inl e)
                | Inr t \<Rightarrow> (d1\<lparr>yaml := t, dirty := True\<rparr>, Inr ()))))"

text \<open>
  \<open>get_value\<close>; \<open>key=None\<close> is \<open>None\<close>, \<open>default=None\<close> is \<open>YNull\<close>. The
  document is returned with the result, as for the methods that assign to it.
\<close>

definition get_value ::
  "yaml_file \<Rightarrow> string \<Rightarrow> string option \<Rightarrow> yaml \<Rightarrow> yaml_file \<times> yaml result" where
  "get_value d section_path key dflt =
     (case get_section_or_none d section_path of
        Inl e \<Rightarrow> (d, Inl e)
      | Inr existing \<Rightarrow>
          if existing = YNull then (d, Inr dflt)
          else (case key of
                  None \<Rightarrow> (d, Inr existing)
                | Some k \<Rightarrow> (d, py_get existing k dflt)))"

section \<open>Calls in sequence\<close>

datatype op =
    Load
  | Save
  | TransformYaml "yaml \<Rightarrow> yaml \<times> yaml result"
  | EnsureSection string
  | SetValues string "(string \<times> yaml) list"
  | SetValue string string yaml
  | GetValue string "string option" yaml

definition returns_none :: "'s \<times> unit result \<Rightarrow> 's \<times> yaml result" where
  "returns_none x = (case x of (s, Inl e) \<Rightarrow> (s, Inl e) | (s, Inr u) \<Rightarrow> (s, Inr YNull))"

text \<open>One method call on the object \<open>d\<close> in the world \<open>w\<close>.\<close>

fun exec :: "codec \<Rightarrow> op \<Rightarrow> world \<times> yaml_file \<Rightarrow> (world \<times> yaml_file) \<times> yaml result" where
  "exec c Load (w, d) = (case returns_none (load c w d) of (d', r) \<Rightarrow> ((w, d'), r))"
| "exec c Save (w, d) = returns_none (save c w d)"
| "exec c (TransformYaml f) (w, d) =
     (case returns_none (transform_yaml d f) of (d', r) \<Rightarrow> ((w, d'), r))"
| "exec c (EnsureSection path) (w, d) =
     (case ensure_section d path of (d', r) \<Rightarrow> ((w, d'), r))"
| "exec c (SetValues path vals) (w, d) =
     (case returns_none (set_values d path vals) of (d', r) \<Rightarrow> ((w, d'), r))"
| "exec c (SetValue path key v) (w, d) =
     (case returns_none (set_value d path key v) of (d', r) \<Rightarrow> ((w, d'), r))"
| "exec c (GetValue path key dflt) (w, d) =
     (case get_value d path key dflt of (d', r) \<Rightarrow> ((w, d'), r))"

text \<open>The calls that the class guards with \<open>_throw_if_corrupted\<close>.\<close>

fun mutating :: "op \<Rightarrow> bool" where
  "mutating Load = False"
| "mutating (GetValue path key dflt) = False"
| "mutating x = True"

text \<open>A caller that goes on after an exception: every call runs, every outcome is kept.\<close>

fun run ::
  "codec \<Rightarrow> op list \<Rightarrow> world \<times> yaml_file \<Rightarrow> (world \<times> yaml_file) \<times> yaml result list" where
  "run c [] s = (s, [])"
| "run c (x # xs) s =
     (case exec c x s of (s1, r) \<Rightarrow> (case run c xs s1 of (s2, rs) \<Rightarrow> (s2, r # rs)))"

text \<open>
  The states an object can be in: built by the constructor, then any calls, each in whatever
  state the file system is in by then.
\<close>

inductive reachable :: "codec \<Rightarrow> yaml_file \<Rightarrow> bool" for c :: codec where
  constructed: "YamlFile c w fname = Inr d \<Longrightarrow> reachable c d"
| called: "reachable c d \<Longrightarrow> exec c x (w, d) = ((w', d'), r) \<Longrightarrow> reachable c d'"

section \<open>Shapes of the tree along a section path\<close>

fun is_mapping :: "yaml \<Rightarrow> bool" where
  "is_mapping (YMap c m) = True"
| "is_mapping t = False"

text \<open>
  \<open>along_mappings final pieces t\<close>: walking \<open>pieces\<close> from \<open>t\<close>, every node in
  which a piece is looked up is a mapping, and the node the walk ends in, if all pieces are
  there, satisfies \<open>final\<close>. A piece that is missing from a mapping ends the walk.
\<close>

fun along_mappings :: "(yaml \<Rightarrow> bool) \<Rightarrow> string list \<Rightarrow> yaml \<Rightarrow> bool" where
  "along_mappings final [] t = final t"
| "along_mappings final (p # ps) (YMap c m) =
     (case map_of m p of None \<Rightarrow> True | Some child \<Rightarrow> along_mappings final ps child)"
| "along_mappings final (p # ps) t = False"

text \<open>
  \<open>section_present pieces t\<close>: all pieces are there, each in a mapping, and the node at the
  end is a mapping.
\<close>

fun section_present :: "string list \<Rightarrow> yaml \<Rightarrow> bool" where
  "section_present [] t = is_mapping t"
| "section_present (p # ps) (YMap c m) =
     (case map_of m p of None \<Rightarrow> False | Some child \<Rightarrow> section_present ps child)"
| "section_present (p # ps) t = False"

text \<open>
  \<open>lookup_defined final pieces t\<close>: walking \<open>pieces\<close> from \<open>t\<close>, every node
  in which a piece is looked up is a mapping, a sequence without an element equal to the
  piece, or a string that does not contain the piece; and the node the walk ends in, if all
  pieces are there, satisfies \<open>final\<close>.
\<close>

fun lookup_defined :: "(yaml \<Rightarrow> bool) \<Rightarrow> string list \<Rightarrow> yaml \<Rightarrow> bool" where
  "lookup_defined final [] t = final t"
| "lookup_defined final (p # ps) (YMap c m) =
     (case map_of m p of None \<Rightarrow> True | Some child \<Rightarrow> lookup_defined final ps child)"
| "lookup_defined final (p # ps) (YSeq xs) = (YStr p \<notin> set xs)"
| "lookup_defined final (p # ps) (YStr s) = (\<not> is_substring p s)"
| "lookup_defined final (p # ps) t = False"

section \<open>Sample files, worlds and objects\<close>

text \<open>
  A stand-in for the external library at concrete inputs: it reads and writes one document,
  reads the empty document as \<open>None\<close>, lets the \<open>ValueError\<close> of the date
  constructor escape on a date that does not exist, and rejects every other text with a
  \<open>YAMLError\<close>.
\<close>

definition sample_text :: string where
  "sample_text = ''{a: {b: {c: {x: 1}}}}''"

definition sample_tree :: yaml where
  "sample_tree =
     YMap (Some default_comment)
       [(''a'', YMap None [(''b'', YMap None [(''c'', YMap None [(''x'', YInt 1)])])])]"

definition sample_message :: string where
  "sample_message = ''while parsing a flow sequence: did not find expected end of sequence''"

definition test_codec :: codec where
  "test_codec =
     \<lparr>yaml_load = (\<lambda>s. if s = [] then Inr YNull
                       else if s = sample_text then Inr sample_tree
                       else if s = ''a: 2001-13-45''
                         then Inl (ValueError ''month must be in 1..12'')
                       else Inl (YAMLError sample_message)),
      yaml_dump = (\<lambda>t. if t = sample_tree then sample_text else [])\<rparr>"

text \<open>
  Worlds: nothing on disk and nothing refused; a file that may not be read; a file that does
  not parse; a file with a date that does not exist; a file that is not UTF-8; a disk that
  refuses the write to the temporary file (\<open>ENOSPC\<close>, 28).
\<close>

definition quiet_world :: world where
  "quiet_world = \<lparr>files = Map.empty, fault = (\<lambda>s. Map.empty)\<rparr>"

definition locked_world :: world where
  "locked_world =
     \<lparr>files = [''p.yml'' \<mapsto> Text sample_text],
      fault = (\<lambda>s. if s = OpenRead then [''p.yml'' \<mapsto> EACCES] else Map.empty)\<rparr>"

definition broken_world :: world where
  "broken_world = \<lparr>files = [''p.yml'' \<mapsto> Text ''a: [1''], fault = (\<lambda>s. Map.empty)\<rparr>"

definition bad_date_world :: world where
  "bad_date_world =
     \<lparr>files = [''p.yml'' \<mapsto> Text ''a: 2001-13-45''], fault = (\<lambda>s. Map.empty)\<rparr>"

definition binary_world :: world where
  "binary_world = \<lparr>files = [''p.yml'' \<mapsto> Undecodable], fault = (\<lambda>s. Map.empty)\<rparr>"

definition full_disk_world :: world where
  "full_disk_world =
     \<lparr>files = Map.empty,
      fault = (\<lambda>s. if s = Write then [''p.yml.tmp'' \<mapsto> 28] else Map.empty)\<rparr>"

text \<open>
  Objects: as built on a missing file; as loaded from the file that does not parse; as loaded
  from a file that reads \<open>a: {k: 1}\<close>.
\<close>

definition fresh_doc :: yaml_file where
  "fresh_doc =
     \<lparr>filename = ''p.yml'', dirty = True, corrupted = False,
      corrupted_error_message = None, yaml = YMap (Some default_comment) []\<rparr>"

definition broken_doc :: yaml_file where
  "broken_doc =
     \<lparr>filename = ''p.yml'', dirty = True, corrupted = True,
      corrupted_error_message = Some sample_message, yaml = YMap (Some default_comment) []\<rparr>"

definition clean_doc :: yaml_file where
  "clean_doc =
     \<lparr>filename = ''p.yml'', dirty = False, corrupted = False,
      corrupted_error_message = None, yaml = YMap None [(''a'', YMap None [(''k'', YInt 1)])]\<rparr>"

lemmas sample_defs = sample_message_def test_codec_def quiet_world_def locked_world_def
  broken_world_def bad_date_world_def binary_world_def full_disk_world_def fresh_doc_def broken_doc_def clean_doc_def
  sample_text_def sample_tree_def default_comment_def ENOENT_def EACCES_def

section \<open>The tree loops\<close>

lemma split_dot_nonempty: "split_dot s \<noteq> []"
  by (induction s) (auto split: list.splits)

lemma is_mappingE: "is_mapping t \<Longrightarrow> (\<And>c m. t = YMap c m \<Longrightarrow> P) \<Longrightarrow> P"
  by (cases t) auto

lemma along_mappings_empty: "along_mappings is_mapping ps (YMap c [])"
  by (cases ps) auto

lemma section_present_along: "section_present ps t \<Longrightarrow> along_mappings is_mapping ps t"
proof (induction ps arbitrary: t)
  case Nil
  then show ?case by simp
next
  case (Cons p ps)
  then show ?case by (cases t) (auto split: option.splits)
qed

lemma get_section_loop_defined:
  assumes "F YNull"
  shows "(\<exists>n. get_section_loop ps t = Inr n \<and> F n) = lookup_defined F ps t"
proof (induction ps arbitrary: t)
  case Nil
  show ?case by simp
next
  case (Cons p ps)
  show ?case
  proof (cases t)
    case (YMap c m)
    with Cons assms show ?thesis by (cases "map_of m p") auto
  qed (use assms in auto)
qed

lemma get_section_loop_raises:
  "get_section_loop ps t = Inl e \<Longrightarrow> e = TypeError"
proof (induction ps arbitrary: t)
  case Nil
  then show ?case by simp
next
  case (Cons p ps)
  then show ?case
    by (cases t) (auto split: if_splits option.splits)
qed

lemma ensure_loop_present:
  "section_present ps t \<Longrightarrow> \<exists>n. ensure_loop ps t = (t, False, Inr n)"
proof (induction ps arbitrary: t)
  case Nil
  then show ?case by simp
next
  case (Cons p ps)
  then obtain c m where t: "t = YMap c m" by (cases t) auto
  with Cons.prems obtain child where ch: "map_of m p = Some child" "section_present ps child"
    by (auto split: option.splits)
  from Cons.IH[OF ch(2)] obtain n where "ensure_loop ps child = (child, False, Inr n)" by blast
  with t ch(1) show ?case by (simp add: update_triv)
qed

lemma ensure_loop_along_mappings:
  "along_mappings is_mapping ps t \<Longrightarrow>
     \<exists>t1 marked n. ensure_loop ps t = (t1, marked, Inr n) \<and> section_present ps t1"
proof (induction ps arbitrary: t)
  case Nil
  then show ?case by fastforce
next
  case (Cons p ps)
  then obtain c m where t: "t = YMap c m" by (cases t) auto
  show ?case
  proof (cases "map_of m p")
    case None
    have "along_mappings is_mapping ps (YMap None [])"
      by (simp add: along_mappings_empty)
    from Cons.IH[OF this] obtain t1 marked n where
      e: "ensure_loop ps (YMap None []) = (t1, marked, Inr n)" "section_present ps t1"
      by blast
    with t None show ?thesis by (auto simp: update_conv')
  next
    case (Some child)
    with t Cons.prems have "along_mappings is_mapping ps child" by simp
    from Cons.IH[OF this] obtain t1 marked n where
      e: "ensure_loop ps child = (t1, marked, Inr n)" "section_present ps t1"
      by blast
    with t Some show ?thesis by (auto simp: update_conv')
  qed
qed

lemma assign_in_section_present:
  "section_present ps t \<Longrightarrow>
     \<exists>t2. assign_in_section ps k v t = Inr t2 \<and> section_present ps t2"
proof (induction ps arbitrary: t)
  case Nil
  then show ?case by (cases t) auto
next
  case (Cons p ps)
  then obtain c m where t: "t = YMap c m" by (cases t) auto
  with Cons.prems obtain child where ch: "map_of m p = Some child" "section_present ps child"
    by (auto split: option.splits)
  from Cons.IH[OF ch(2)] obtain t2 where
    "assign_in_section ps k v child = Inr t2" "section_present ps t2" by blast
  with t ch(1) show ?case by (simp add: update_conv')
qed

lemma assign_then_get:
  "assign_in_section ps k v t = Inr t2 \<Longrightarrow>
     \<exists>c m. get_section_loop ps t2 = Inr (YMap c m) \<and> map_of m k = Some v"
proof (induction ps arbitrary: t t2)
  case Nil
  then show ?case by (cases t) (auto simp: update_conv')
next
  case (Cons p ps)
  then obtain c m where t: "t = YMap c m" by (cases t) auto
  with Cons.prems obtain child child' where
    ch: "map_of m p = Some child" "assign_in_section ps k v child = Inr child'"
        "t2 = YMap c (AList.update p child' m)"
    by (auto split: option.splits sum.splits)
  from Cons.IH[OF ch(2)] ch(3) show ?case by (simp add: update_conv')
qed

section \<open>The methods\<close>

lemma get_value_keeps_document: "fst (get_value d path key dflt) = d"
  by (simp add: get_value_def split: sum.splits option.splits)

lemma get_fresh:
  assumes "yaml d = YMap cm []"
  shows "get_value d path key dflt = (d, Inr dflt)"
  using split_dot_nonempty[of path] assms
  by (cases "split_dot path") (simp_all add: get_value_def get_section_or_none_def)

lemma get_value_found:
  assumes "get_section_loop (split_dot path) (yaml d) = Inr (YMap cm m)" "map_of m key = Some v"
  shows "get_value d path (Some key) dflt = (d, Inr v)"
  using assms by (simp add: get_value_def get_section_or_none_def)

lemma get_value_returns_iff:
  "(\<exists>r. get_value d path key dflt = (d, Inr r)) =
     (\<exists>n. get_section_loop (split_dot path) (yaml d) = Inr n \<and>
          (n = YNull \<or> key = None \<or> is_mapping n))"
proof (cases "get_section_loop (split_dot path) (yaml d)")
  case (Inl e)
  then show ?thesis by (simp add: get_value_def get_section_or_none_def)
next
  case (Inr n)
  then show ?thesis
    by (cases key; cases n) (simp_all add: get_value_def get_section_or_none_def)
qed

lemma get_value_result:
  assumes "get_value d path key dflt = (d', Inr r)"
  shows "r = dflt \<or> get_section_or_none d path = Inr r \<or>
         (\<exists>k c m. key = Some k \<and> get_section_or_none d path = Inr (YMap c m) \<and>
                   map_of m k = Some r)"
  using assms
  by (cases "get_section_or_none d path"; cases key)
     (auto simp: get_value_def split: if_splits option.splits elim!: py_get.elims)

lemma get_value_raises:
  assumes "get_value d path key dflt = (d', Inl e)"
  shows "e = TypeError \<or> e = AttributeError"
  using assms
  by (cases "get_section_or_none d path"; cases key)
     (auto simp: get_value_def get_section_or_none_def split: if_splits
        dest: get_section_loop_raises elim!: py_get.elims)

lemma load_absent:
  assumes "os_open_read w (filename d) = Inl (IOError ENOENT)"
  shows "load c w d = (d\<lparr>corrupted := False, corrupted_error_message := None, yaml := YMap (Some default_comment) [], dirty := True\<rparr>, Inr ())"
  using assms by (simp add: load_def read_and_parse_def fresh_if_none_def)

lemma load_parse_failure:
  assumes "os_open_read w (filename d) = Inr (Text contents)" "yaml_load c contents = Inl (YAMLError msg)"
  shows "load c w d =
           (d\<lparr>corrupted := True, corrupted_error_message := Some msg,
               yaml := YMap (Some default_comment) [], dirty := True\<rparr>, Inr ())"
  using assms by (simp add: load_def read_and_parse_def file_read_def fresh_if_none_def)

lemma load_parsed:
  assumes "fault w OpenRead (filename d) = None" "files w (filename d) = Some (Text s)"
    "yaml_load c s = Inr t" "t \<noteq> YNull"
  shows "load c w d =
           (d\<lparr>corrupted := False, corrupted_error_message := None, yaml := t,
               dirty := False\<rparr>, Inr ())"
  using assms by (simp add: load_def read_and_parse_def os_open_read_def file_read_def fresh_if_none_def)

lemma YamlFile_absent:
  assumes "files w fname = None" "fault w OpenRead fname = None"
  shows "YamlFile c w fname =
           Inr \<lparr>filename = fname, dirty = True, corrupted = False,
                corrupted_error_message = None, yaml = YMap (Some default_comment) []\<rparr>"
  using assms by (simp add: YamlFile_def load_def read_and_parse_def os_open_read_def fresh_if_none_def)

lemma load_corrupted_dirty:
  assumes "load c w d = (d', r)" "corrupted d'"
  shows "dirty d'"
  using assms
  by (auto simp: load_def fresh_if_none_def Let_def split: sum.splits error.splits if_splits)

lemma load_clean_only_on_success:
  assumes "load c w d = (d', r)" "dirty d" "\<not> dirty d'"
  shows "r = Inr () \<and> \<not> corrupted d'"
  using assms
  by (auto simp: load_def fresh_if_none_def Let_def split: sum.splits error.splits if_splits)

lemma ensure_section_corrupted:
  "ensure_section d path = (d', r) \<Longrightarrow> corrupted d' = corrupted d"
  by (auto simp: ensure_section_def split: sum.splits prod.splits if_splits)

lemma ensure_section_returns:
  assumes "\<not> corrupted d" "along_mappings is_mapping (split_dot path) (yaml d)"
  shows "\<exists>d1 n. ensure_section d path = (d1, Inr n) \<and>
           section_present (split_dot path) (yaml d1) \<and> \<not> corrupted d1 \<and>
           filename d1 = filename d \<and> corrupted_error_message d1 = corrupted_error_message d \<and>
           (dirty d \<longrightarrow> dirty d1)"
proof -
  from ensure_loop_along_mappings[OF assms(2)] obtain t1 marked n where
    "ensure_loop (split_dot path) (yaml d) = (t1, marked, Inr n)"
    "section_present (split_dot path) t1" by blast
  with assms(1) show ?thesis
    by (simp add: ensure_section_def throw_if_corrupted_def)
qed

lemma set_value_returns:
  assumes "\<not> corrupted d" "along_mappings is_mapping (split_dot path) (yaml d)"
  shows "\<exists>d2 c m. set_value d path key v = (d2, Inr ()) \<and> dirty d2 \<and> \<not> corrupted d2 \<and>
           filename d2 = filename d \<and>
           get_section_loop (split_dot path) (yaml d2) = Inr (YMap c m) \<and> map_of m key = Some v"
proof -
  from ensure_section_returns[OF assms] obtain d1 n where
    e: "ensure_section d path = (d1, Inr n)" "section_present (split_dot path) (yaml d1)"
       "\<not> corrupted d1" "filename d1 = filename d" by blast
  from assign_in_section_present[OF e(2)] obtain t2 where
    a: "assign_in_section (split_dot path) key v (yaml d1) = Inr t2" by blast
  from assign_then_get[OF a] obtain c m where
    g: "get_section_loop (split_dot path) t2 = Inr (YMap c m)" "map_of m key = Some v" by blast
  from assms(1) e a g show ?thesis
    by (simp add: set_value_def throw_if_corrupted_def)
qed

lemma set_value_returned_dirty:
  "set_value d path key v = (d', Inr u) \<Longrightarrow> dirty d'"
  by (auto simp: set_value_def split: sum.splits prod.splits)

lemma set_values_loop_corrupted:
  "set_values_loop ps kvs d = (d', r) \<Longrightarrow> corrupted d' = corrupted d"
  by (induction ps kvs d rule: set_values_loop.induct) (auto split: sum.splits)

lemma set_values_loop_returned_dirty:
  "set_values_loop ps kvs d = (d', Inr u) \<Longrightarrow> kvs \<noteq> [] \<or> dirty d \<Longrightarrow> dirty d'"
proof (induction ps kvs d rule: set_values_loop.induct)
  case (1 pieces d)
  then show ?case by simp
next
  case (2 pieces k v kvs d)
  then show ?case by (auto split: sum.splits)
qed

lemma set_values_returned_dirty:
  "set_values d path vals = (d', Inr u) \<Longrightarrow> vals \<noteq> [] \<Longrightarrow> dirty d'"
  by (auto simp: set_values_def split: sum.splits prod.splits
      dest: set_values_loop_returned_dirty)

lemma set_values_loop_returns:
  "section_present ps (yaml d) \<Longrightarrow> \<exists>d'. set_values_loop ps kvs d = (d', Inr ())"
proof (induction ps kvs d rule: set_values_loop.induct)
  case (1 pieces d)
  then show ?case by simp
next
  case (2 pieces k v kvs d)
  from assign_in_section_present[OF "2.prems"] obtain t2 where
    a: "assign_in_section pieces k v (yaml d) = Inr t2" "section_present pieces t2" by blast
  with "2.IH"[of t2] show ?case by simp
qed

lemma set_values_returns:
  assumes "\<not> corrupted d" "along_mappings is_mapping (split_dot path) (yaml d)"
  shows "\<exists>d'. set_values d path vals = (d', Inr ())"
proof -
  from ensure_section_returns[OF assms] obtain d1 n where
    e: "ensure_section d path = (d1, Inr n)" "section_present (split_dot path) (yaml d1)"
    by blast
  from set_values_loop_returns[OF e(2)] obtain d' where
    "set_values_loop (split_dot path) vals d1 = (d', Inr ())" by blast
  with assms(1) e(1) show ?thesis
    by (simp add: set_values_def throw_if_corrupted_def)
qed

lemma atomic_replace_succeeds:
  assumes "\<forall>s p. fault w s p = None"
  shows "\<exists>w'. atomic_replace w path contents = (w', Inr ()) \<and>
           files w' path = Some (Text contents) \<and> fault w' = fault w"
  using assms
  by (simp add: atomic_replace_def write_and_rename_def remove_quietly_def Let_def)

lemma save_succeeds:
  assumes "\<forall>s p. fault w s p = None" "\<not> corrupted d" "dirty d"
  shows "\<exists>w'. save c w d = ((w', d\<lparr>dirty := False\<rparr>), Inr ()) \<and>
           files w' (filename d) = Some (Text (yaml_dump c (yaml d))) \<and> fault w' = fault w"
proof -
  from atomic_replace_succeeds[OF assms(1)] obtain w' where
    "atomic_replace w (filename d) (yaml_dump c (yaml d)) = (w', Inr ())"
    "files w' (filename d) = Some (Text (yaml_dump c (yaml d)))" "fault w' = fault w"
    by blast
  with assms show ?thesis
    by (simp add: save_def throw_if_corrupted_def makedirs_ok_if_exists_def)
qed

section \<open>The corrupted state\<close>

lemma blocked_when_corrupted:
  assumes "corrupted d" "mutating x"
  shows "exec c x (w, d) = ((w, d), Inl (ValueError (corrupted_message_text d)))"
  using assms
  by (cases x)
     (simp_all add: save_def transform_yaml_def ensure_section_def set_values_def
        set_value_def throw_if_corrupted_def returns_none_def)

lemma run_blocked_when_corrupted:
  assumes "corrupted d" "list_all mutating xs"
  shows "run c xs (w, d) =
           ((w, d), replicate (length xs) (Inl (ValueError (corrupted_message_text d))))"
  using assms
  by (induction xs) (simp_all add: blocked_when_corrupted)

lemma exec_keeps_corrupted:
  assumes "exec c x (w, d) = ((w', d'), r)" "x \<noteq> Load"
  shows "corrupted d' = corrupted d"
proof (cases x)
  case Load
  with assms show ?thesis by simp
next
  case Save
  with assms show ?thesis
    by (auto simp: save_def returns_none_def split: sum.splits prod.splits if_splits)
next
  case (TransformYaml f)
  with assms show ?thesis
    by (auto simp: transform_yaml_def returns_none_def split: sum.splits prod.splits if_splits)
next
  case (EnsureSection path)
  with assms show ?thesis
    by (auto split: prod.splits dest: ensure_section_corrupted)
next
  case (SetValues path vals)
  with assms show ?thesis
    by (auto simp: set_values_def returns_none_def split: sum.splits prod.splits
        dest: ensure_section_corrupted set_values_loop_corrupted)
next
  case (SetValue path key v)
  with assms show ?thesis
    by (auto simp: set_value_def returns_none_def split: sum.splits prod.splits
        dest: ensure_section_corrupted)
next
  case (GetValue path key dflt)
  with assms get_value_keeps_document[of d path key dflt] show ?thesis
    by (auto split: prod.splits)
qed

lemma exec_corrupted_dirty:
  assumes "exec c x (w, d) = ((w', d'), r)" "corrupted d \<longrightarrow> dirty d" "corrupted d'"
  shows "dirty d'"
proof (cases "x = Load")
  case True
  with assms show ?thesis
    by (auto simp: returns_none_def split: prod.splits sum.splits dest: load_corrupted_dirty)
next
  case False
  with assms(1) have c: "corrupted d" using exec_keeps_corrupted assms(3) by blast
  show ?thesis
  proof (cases "mutating x")
    case True
    with c assms(1) have "d' = d" by (simp add: blocked_when_corrupted)
    with c assms(2) show ?thesis by simp
  next
    case False
    with \<open>x \<noteq> Load\<close> obtain path key dflt where "x = GetValue path key dflt"
      by (cases x) auto
    with assms(1) get_value_keeps_document[of d path key dflt] have "d' = d"
      by (auto split: prod.splits)
    with c assms(2) show ?thesis by simp
  qed
qed

lemma YamlFile_corrupted_dirty:
  assumes "YamlFile c w fname = Inr d" "corrupted d"
  shows "dirty d"
  using assms
  by (auto simp: YamlFile_def split: prod.splits sum.splits dest: load_corrupted_dirty)

lemma reachable_corrupted_dirty:
  "reachable c d \<Longrightarrow> corrupted d \<Longrightarrow> dirty d"
proof (induction rule: reachable.induct)
  case (constructed w fname d)
  then show ?case by (rule YamlFile_corrupted_dirty)
next
  case (called d x w w' d' r)
  then show ?case using exec_corrupted_dirty by blast
qed

lemma exec_from_corrupted:
  assumes "exec c x (w, d) = ((w', d'), r)" "corrupted d" "dirty d"
  shows "dirty d' \<or> (x = Load \<and> r = Inr YNull \<and> \<not> corrupted d')"
proof (cases x)
  case Load
  with assms show ?thesis
    by (auto simp: returns_none_def split: prod.splits sum.splits
        dest: load_clean_only_on_success)
next
  case (GetValue path key dflt)
  with assms get_value_keeps_document[of d path key dflt] show ?thesis
    by (auto split: prod.splits)
qed (use assms blocked_when_corrupted[of d x c w] in auto)

section \<open>Loading\<close>

text \<open>
  C1, as stated, fails: not every content that fails to parse is reported by a
  \<open>YAMLError\<close>, the one exception of the parser that \<open>load\<close> catches. On a file
  that is not UTF-8 \<open>load\<close> raises \<open>UnicodeDecodeError\<close>, and on a text for
  which another exception escapes from the parser \<open>load\<close> raises that exception; in
  both cases \<open>corrupted\<close> is false.
\<close>

theorem load_raises_on_uncaught_parse_failure:
  "\<not> corrupted clean_doc \<and>
   load test_codec binary_world clean_doc = (clean_doc, Inl UnicodeDecodeError) \<and>
   load test_codec bad_date_world clean_doc =
     (clean_doc, Inl (ValueError ''month must be in 1..12''))"
  by (simp add: load_def read_and_parse_def os_open_read_def file_read_def sample_defs)

text \<open>
  C1, amended. When the file can be read and decoded and the parser rejects its text with a
  \<open>YAMLError\<close>, \<open>load\<close> returns normally, \<open>corrupted\<close> is true and
  \<open>corrupted_error_message\<close> is the parser's text. From then on any sequence of calls to \<open>_ensure_section\<close>, \<open>set_value\<close>,
  \<open>set_values\<close>, \<open>transform_yaml\<close> and \<open>save\<close>, in any state of the file system,
  leaves the object and the file system as they are, and each call raises the
  \<open>ValueError\<close> whose text ends in the stored message.
\<close>

theorem load_never_raises_on_parse_failure:
  assumes "os_open_read w (filename d) = Inr (Text contents)"
    and "yaml_load c contents = Inl (YAMLError msg)"
  shows "\<exists>d'. load c w d = (d', Inr ()) \<and> corrupted d' \<and>
           corrupted_error_message d' = Some msg \<and>
           (\<forall>xs w'. list_all mutating xs \<longrightarrow>
              run c xs (w', d') =
                ((w', d'),
                 replicate (length xs)
                   (Inl (ValueError (''Cannot modify corrupted YAML file '' @ filename d @
                                     [CHR 0x0A] @ msg)))))"
proof -
  let ?d' = "d\<lparr>corrupted := True, corrupted_error_message := Some msg,
               yaml := YMap (Some default_comment) [], dirty := True\<rparr>"
  have l: "load c w d = (?d', Inr ())"
    using assms by (rule load_parse_failure)
  have m: "corrupted_message_text ?d' =
             ''Cannot modify corrupted YAML file '' @ filename d @ [CHR 0x0A] @ msg"
    by (simp add: corrupted_message_text_def)
  have "\<forall>xs w'. list_all mutating xs \<longrightarrow>
          run c xs (w', ?d') =
            ((w', ?d'), replicate (length xs) (Inl (ValueError (corrupted_message_text ?d'))))"
    by (simp add: run_blocked_when_corrupted)
  with l m show ?thesis by auto
qed

theorem load_never_raises_on_parse_failure_witness:
  "os_open_read broken_world (filename fresh_doc) = Inr (Text ''a: [1'') \<and>
   yaml_load test_codec ''a: [1'' = Inl (YAMLError sample_message) \<and>
   load test_codec broken_world fresh_doc = (broken_doc, Inr ()) \<and>
   corrupted broken_doc \<and>
   run test_codec
     [EnsureSection ''a'', SetValue ''a'' ''k'' (YInt 1), SetValues ''a'' [(''k'', YInt 1)],
      TransformYaml (\<lambda>t. (t, Inr YNull)), Save] (quiet_world, broken_doc) =
     ((quiet_world, broken_doc),
      replicate 5 (Inl (ValueError (''Cannot modify corrupted YAML file p.yml'' @ [CHR 0x0A] @
                                    sample_message))))"
proof -
  have h1: "os_open_read broken_world (filename fresh_doc) = Inr (Text ''a: [1'')"
    by (simp add: os_open_read_def sample_defs)
  have h2: "yaml_load test_codec ''a: [1'' = Inl (YAMLError sample_message)"
    by (simp add: sample_defs)
  have l: "load test_codec broken_world fresh_doc = (broken_doc, Inr ())"
    by (simp add: load_def read_and_parse_def os_open_read_def file_read_def fresh_if_none_def sample_defs)
  from load_never_raises_on_parse_failure[OF h1 h2] l
  have a: "\<forall>xs w'. list_all mutating xs \<longrightarrow>
          run test_codec xs (w', broken_doc) =
            ((w', broken_doc),
             replicate (length xs)
               (Inl (ValueError (''Cannot modify corrupted YAML file '' @ filename fresh_doc @
                                 [CHR 0x0A] @ sample_message))))"
    by simp
  have "run test_codec
     [EnsureSection ''a'', SetValue ''a'' ''k'' (YInt 1), SetValues ''a'' [(''k'', YInt 1)],
      TransformYaml (\<lambda>t. (t, Inr YNull)), Save] (quiet_world, broken_doc) =
     ((quiet_world, broken_doc),
      replicate 5 (Inl (ValueError (''Cannot modify corrupted YAML file '' @ filename fresh_doc @
                                 [CHR 0x0A] @ sample_message))))"
    using a[rule_format, of "[EnsureSection ''a'', SetValue ''a'' ''k'' (YInt 1),
      SetValues ''a'' [(''k'', YInt 1)], TransformYaml (\<lambda>t. (t, Inr YNull)), Save]" quiet_world]
    by (simp add: eval_nat_numeral)
  moreover have "filename fresh_doc = ''p.yml''" by (simp add: fresh_doc_def)
  moreover have "corrupted broken_doc" by (simp add: broken_doc_def)
  ultimately show ?thesis using h1 h2 l by (simp add: eval_nat_numeral)
qed

text \<open>
  C3. When there is no file at the path, \<open>load\<close> returns normally with
  \<open>corrupted\<close> false, \<open>dirty\<close> true and the tree an empty mapping that carries the
  default comment; \<open>get_value\<close> then returns the default for every path, key and
  default.
\<close>

theorem load_of_absent_file:
  assumes "files w (filename d) = None" and "fault w OpenRead (filename d) = None"
  shows "\<exists>d'. load c w d = (d', Inr ()) \<and> \<not> corrupted d' \<and> dirty d' \<and>
           yaml d' = YMap (Some default_comment) [] \<and>
           (\<forall>path key dflt. get_value d' path key dflt = (d', Inr dflt))"
proof -
  have "os_open_read w (filename d) = Inl (IOError ENOENT)"
    using assms by (simp add: os_open_read_def)
  then have l: "load c w d =
      (d\<lparr>corrupted := False, corrupted_error_message := None,
          yaml := YMap (Some default_comment) [], dirty := True\<rparr>, Inr ())"
    by (rule load_absent)
  show ?thesis unfolding l by (simp add: get_fresh)
qed

theorem load_of_absent_file_witness:
  "files quiet_world (filename clean_doc) = None \<and>
   fault quiet_world OpenRead (filename clean_doc) = None \<and>
   load test_codec quiet_world clean_doc = (fresh_doc, Inr ()) \<and>
   get_value fresh_doc ''missing.path'' (Some ''key'') (YInt 42) = (fresh_doc, Inr (YInt 42))"
proof -
  have h1: "files quiet_world (filename clean_doc) = None" by (simp add: sample_defs)
  have h2: "fault quiet_world OpenRead (filename clean_doc) = None" by (simp add: sample_defs)
  have l: "load test_codec quiet_world clean_doc = (fresh_doc, Inr ())"
    by (simp add: load_def read_and_parse_def os_open_read_def fresh_if_none_def sample_defs)
  from load_of_absent_file[OF h1 h2, of test_codec] l
  have "get_value fresh_doc ''missing.path'' (Some ''key'') (YInt 42) =
          (fresh_doc, Inr (YInt 42))"
    by simp
  with h1 h2 l show ?thesis by simp
qed

text \<open>
  C8. When opening the file for reading is refused with an \<open>errno\<close> other than
  \<open>ENOENT\<close>, \<open>load\<close> raises that very \<open>IOError\<close>: the tree and \<open>dirty\<close>
  are as before, \<open>corrupted\<close> is false, no fresh tree is put in place; and the
  constructor raises the same error.
\<close>

theorem load_propagates_io_error:
  assumes "fault w OpenRead (filename d) = Some e" and "e \<noteq> ENOENT"
  shows "load c w d =
           (d\<lparr>corrupted := False, corrupted_error_message := None\<rparr>, Inl (IOError e)) \<and>
         YamlFile c w (filename d) = Inl (IOError e)"
  using assms by (simp add: load_def read_and_parse_def YamlFile_def os_open_read_def)

theorem load_propagates_io_error_witness:
  "fault locked_world OpenRead (filename clean_doc) = Some EACCES \<and> EACCES \<noteq> ENOENT \<and>
   files locked_world (filename clean_doc) = Some (Text sample_text) \<and>
   load test_codec locked_world clean_doc = (clean_doc, Inl (IOError EACCES)) \<and>
   YamlFile test_codec locked_world ''p.yml'' = Inl (IOError EACCES)"
proof -
  have h1: "fault locked_world OpenRead (filename clean_doc) = Some EACCES"
    by (simp add: sample_defs)
  have h2: "EACCES \<noteq> ENOENT" by (simp add: sample_defs)
  from load_propagates_io_error[OF h1 h2, of test_codec] h1 h2
  show ?thesis by (simp add: clean_doc_def locked_world_def)
qed

section \<open>Saving\<close>

text \<open>
  C2. A \<open>save\<close> that raises an \<open>IOError\<close> leaves the object exactly as it was, with
  \<open>dirty\<close> still true; and on an object that is dirty and not corrupted, a refusal of
  the open, of the write or of the rename of the temporary file makes \<open>save\<close> raise an
  \<open>IOError\<close> with the object unchanged.
\<close>

theorem save_failure_keeps_document:
  "(save c w d = ((w', d'), Inl (IOError e)) \<longrightarrow> d' = d \<and> dirty d' \<and> \<not> corrupted d') \<and>
   (\<not> corrupted d \<and> dirty d \<and>
    (fault w OpenWrite (filename d @ ''.tmp'') \<noteq> None \<or>
     fault w Write (filename d @ ''.tmp'') \<noteq> None \<or>
     fault w Rename (filename d @ ''.tmp'') \<noteq> None) \<longrightarrow>
    (\<exists>w1 e1. save c w d = ((w1, d), Inl (IOError e1))))"
  by (auto simp: save_def throw_if_corrupted_def makedirs_ok_if_exists_def atomic_replace_def
      write_and_rename_def Let_def split: if_splits sum.splits prod.splits option.splits)

theorem save_failure_keeps_document_witness:
  "save test_codec full_disk_world fresh_doc =
     ((full_disk_world, fresh_doc), Inl (IOError 28)) \<and> dirty fresh_doc \<and>
   \<not> corrupted fresh_doc \<and> fault full_disk_world Write (filename fresh_doc @ ''.tmp'') \<noteq> None"
proof -
  have h: "save test_codec full_disk_world fresh_doc =
             ((full_disk_world, fresh_doc), Inl (IOError 28))"
    by (simp add: save_def throw_if_corrupted_def makedirs_ok_if_exists_def atomic_replace_def
        write_and_rename_def remove_quietly_def isfile_def Let_def sample_defs)
  from save_failure_keeps_document[of test_codec full_disk_world fresh_doc full_disk_world
      fresh_doc 28] h
  show ?thesis by (simp add: sample_defs)
qed

text \<open>
  C7. After a \<open>save\<close> that returns, \<open>dirty\<close> is false, and a second
  \<open>save\<close> with no call in between returns without writing: whatever the file system
  is by then, it leaves the file system and the object as they are.
\<close>

theorem save_twice_writes_once:
  assumes "save c w d = ((w', d'), Inr u)"
  shows "\<not> dirty d' \<and> (\<forall>w''. save c w'' d' = ((w'', d'), Inr ()))"
  using assms
  by (auto simp: save_def throw_if_corrupted_def split: if_splits sum.splits prod.splits)

theorem save_twice_writes_once_witness:
  "snd (save test_codec quiet_world fresh_doc) = Inr () \<and>
   \<not> dirty (snd (fst (save test_codec quiet_world fresh_doc))) \<and>
   files (fst (fst (save test_codec quiet_world fresh_doc))) ''p.yml'' = Some (Text []) \<and>
   save test_codec (fst (fst (save test_codec quiet_world fresh_doc)))
     (snd (fst (save test_codec quiet_world fresh_doc))) =
     (fst (save test_codec quiet_world fresh_doc), Inr ()) \<and>
   save test_codec full_disk_world (snd (fst (save test_codec quiet_world fresh_doc))) =
     ((full_disk_world, snd (fst (save test_codec quiet_world fresh_doc))), Inr ())"
proof -
  have h: "snd (save test_codec quiet_world fresh_doc) = Inr ()"
    by (simp add: save_def throw_if_corrupted_def makedirs_ok_if_exists_def atomic_replace_def
        write_and_rename_def remove_quietly_def isfile_def Let_def sample_defs)
  have f: "files (fst (fst (save test_codec quiet_world fresh_doc))) ''p.yml'' = Some (Text [])"
    by (simp add: save_def throw_if_corrupted_def makedirs_ok_if_exists_def atomic_replace_def
        write_and_rename_def remove_quietly_def isfile_def Let_def sample_defs)
  from h have "save test_codec quiet_world fresh_doc =
      ((fst (fst (save test_codec quiet_world fresh_doc)),
        snd (fst (save test_codec quiet_world fresh_doc))), Inr ())"
    by (metis prod.collapse)
  from save_twice_writes_once[OF this]
  have n: "\<not> dirty (snd (fst (save test_codec quiet_world fresh_doc)))"
    and a: "\<forall>w''. save test_codec w'' (snd (fst (save test_codec quiet_world fresh_doc))) =
              ((w'', snd (fst (save test_codec quiet_world fresh_doc))), Inr ())"
    by blast+
  from a[rule_format, of "fst (fst (save test_codec quiet_world fresh_doc))"]
    a[rule_format, of full_disk_world] n h f
  show ?thesis by simp
qed

section \<open>Reading values\<close>

text \<open>
  C9. \<open>get_value\<close> changes neither the object nor the file system, whatever it returns
  or raises; a \<open>save\<close> after it does what it would have done before it, and on a clean
  object that is nothing.
\<close>

theorem get_value_never_mutates:
  "fst (exec c (GetValue path key dflt) (w, d)) = (w, d) \<and>
   exec c Save (fst (exec c (GetValue path key dflt) (w, d))) = exec c Save (w, d) \<and>
   (\<not> corrupted d \<and> \<not> dirty d \<longrightarrow>
      exec c Save (fst (exec c (GetValue path key dflt) (w, d))) = ((w, d), Inr YNull))"
proof -
  have "fst (exec c (GetValue path key dflt) (w, d)) = (w, d)"
    using get_value_keeps_document[of d path key dflt]
    by (cases "get_value d path key dflt") simp
  then show ?thesis
    by (simp add: save_def throw_if_corrupted_def returns_none_def)
qed

theorem get_value_never_mutates_witness:
  "\<not> corrupted clean_doc \<and> \<not> dirty clean_doc \<and>
   exec test_codec (GetValue ''missing.path'' (Some ''key'') (YInt 42)) (quiet_world, clean_doc) =
     ((quiet_world, clean_doc), Inr (YInt 42)) \<and>
   exec test_codec Save
     (fst (exec test_codec (GetValue ''missing.path'' (Some ''key'') (YInt 42))
        (quiet_world, clean_doc))) = ((quiet_world, clean_doc), Inr YNull)"
proof -
  have h: "\<not> corrupted clean_doc \<and> \<not> dirty clean_doc" by (simp add: clean_doc_def)
  have g: "exec test_codec (GetValue ''missing.path'' (Some ''key'') (YInt 42))
             (quiet_world, clean_doc) = ((quiet_world, clean_doc), Inr (YInt 42))"
    by (simp add: get_value_def get_section_or_none_def clean_doc_def)
  from get_value_never_mutates[of test_codec "''missing.path''" "Some ''key''" "YInt 42"
      quiet_world clean_doc] h g
  show ?thesis by blast
qed

text \<open>
  C6, as stated, fails: on the tree \<open>{a: {k: 1}}\<close> the path \<open>a.k.z\<close>, which leads
  through the number 1, raises \<open>TypeError\<close>, and a key looked up in the section
  \<open>a.k\<close>, which is the number 1, raises \<open>AttributeError\<close>.
\<close>

theorem get_value_raises_on_scalar:
  "get_value clean_doc ''a.k.z'' (Some ''x'') (YInt 42) = (clean_doc, Inl TypeError) \<and>
   get_value clean_doc ''a.k'' (Some ''x'') (YInt 42) = (clean_doc, Inl AttributeError)"
  by (simp add: get_value_def get_section_or_none_def clean_doc_def)

text \<open>
  C6, amended. In every state of the object, corrupted or not, and for every path, key and
  default, \<open>get_value\<close> returns exactly when every node in which a piece of the path
  is looked up is a mapping, a sequence without an element equal to the piece or a string
  that does not contain the piece, and, if a key is given, the section found is a mapping or
  \<open>None\<close>. What it returns is the default, the section, or the value of the key in the
  section; what it raises otherwise is \<open>TypeError\<close> or \<open>AttributeError\<close>.
\<close>

theorem get_value_returns_iff_lookup_defined:
  "(\<exists>r. get_value d path key dflt = (d, Inr r)) =
     lookup_defined (\<lambda>n. n = YNull \<or> key = None \<or> is_mapping n)
       (split_dot path) (yaml d) \<and>
   (\<forall>d' r. get_value d path key dflt = (d', Inr r) \<longrightarrow>
      r = dflt \<or> get_section_or_none d path = Inr r \<or>
      (\<exists>k c m. key = Some k \<and> get_section_or_none d path = Inr (YMap c m) \<and>
                map_of m k = Some r)) \<and>
   (\<forall>d' e. get_value d path key dflt = (d', Inl e) \<longrightarrow>
      e = TypeError \<or> e = AttributeError)"
proof -
  have "(\<exists>r. get_value d path key dflt = (d, Inr r)) =
          lookup_defined (\<lambda>n. n = YNull \<or> key = None \<or> is_mapping n)
            (split_dot path) (yaml d)"
    unfolding get_value_returns_iff
    by (rule get_section_loop_defined) simp
  then show ?thesis
    using get_value_result get_value_raises by blast
qed

theorem get_value_returns_iff_lookup_defined_witness:
  "corrupted broken_doc \<and>
   lookup_defined (\<lambda>n. n = YNull \<or> Some ''key'' = None \<or> is_mapping n)
     (split_dot ''missing.path'') (yaml broken_doc) \<and>
   get_value broken_doc ''missing.path'' (Some ''key'') (YInt 42) = (broken_doc, Inr (YInt 42)) \<and>
   \<not> lookup_defined (\<lambda>n. n = YNull \<or> Some ''x'' = None \<or> is_mapping n)
     (split_dot ''a.k.z'') (yaml clean_doc) \<and>
   snd (get_value clean_doc ''a.k.z'' (Some ''x'') (YInt 42)) = Inl TypeError"
proof -
  have h: "lookup_defined (\<lambda>n. n = YNull \<or> Some ''key'' = None \<or> is_mapping n)
             (split_dot ''missing.path'') (yaml broken_doc)"
    by (simp add: broken_doc_def)
  have g: "get_value broken_doc ''missing.path'' (Some ''key'') (YInt 42) =
             (broken_doc, Inr (YInt 42))"
    by (simp add: get_value_def get_section_or_none_def broken_doc_def)
  have n: "\<not> lookup_defined (\<lambda>n. n = YNull \<or> Some ''x'' = None \<or> is_mapping n)
             (split_dot ''a.k.z'') (yaml clean_doc)"
    by (simp add: clean_doc_def)
  have "snd (get_value clean_doc ''a.k.z'' (Some ''x'') (YInt 42)) = Inl TypeError"
    by (simp add: get_value_def get_section_or_none_def clean_doc_def)
  with get_value_returns_iff_lookup_defined[of broken_doc "''missing.path''" "Some ''key''"
      "YInt 42"] h g n
  show ?thesis by (simp add: broken_doc_def)
qed

section \<open>Writing values\<close>

text \<open>
  C5, as stated, fails: on a clean object \<open>set_values\<close> with no entries for a section
  that is there returns and leaves \<open>dirty\<close> false; and \<open>set_value\<close> into a section
  that is a number raises \<open>TypeError\<close> and leaves \<open>dirty\<close> false.
\<close>

theorem set_values_without_entries_stays_clean:
  "\<not> corrupted clean_doc \<and> \<not> dirty clean_doc \<and>
   set_values clean_doc ''a'' [] = (clean_doc, Inr ()) \<and>
   set_value clean_doc ''a.k'' ''z'' (YInt 2) = (clean_doc, Inl TypeError)"
  by (simp add: set_values_def set_value_def ensure_section_def throw_if_corrupted_def
      clean_doc_def)

text \<open>
  C5, amended. On an object that is not corrupted, every \<open>set_value\<close> that returns,
  and every \<open>set_values\<close> with at least one entry that returns, leaves \<open>dirty\<close>
  true, whatever was stored before; and both calls return whenever every node on the
  section path is a mapping. A \<open>set_values\<close> with no entries that returns leaves
  \<open>dirty\<close> true exactly when it was true before or the loop of \<open>_ensure_section\<close>
  created a section; when the section is there already, it leaves the object as it is.
\<close>

theorem set_calls_mark_dirty:
  assumes "\<not> corrupted d"
  shows "(\<forall>d' u. set_value d path key v = (d', Inr u) \<longrightarrow> dirty d') \<and>
         (\<forall>d' u. vals \<noteq> [] \<longrightarrow> set_values d path vals = (d', Inr u) \<longrightarrow> dirty d') \<and>
         (along_mappings is_mapping (split_dot path) (yaml d) \<longrightarrow>
            (\<exists>d'. set_value d path key v = (d', Inr ())) \<and>
            (\<exists>d'. set_values d path vals = (d', Inr ()))) \<and>
         (\<forall>d' u. set_values d path [] = (d', Inr u) \<longrightarrow>
            dirty d' = (dirty d \<or> fst (snd (ensure_loop (split_dot path) (yaml d))))) \<and>
         (section_present (split_dot path) (yaml d) \<longrightarrow>
            set_values d path [] = (d, Inr ()))"
proof -
  have e: "\<forall>d' u. set_values d path [] = (d', Inr u) \<longrightarrow>
            dirty d' = (dirty d \<or> fst (snd (ensure_loop (split_dot path) (yaml d))))"
    using assms
    by (auto simp: set_values_def ensure_section_def throw_if_corrupted_def
        split: prod.splits sum.splits if_splits)
  have p: "section_present (split_dot path) (yaml d) \<longrightarrow> set_values d path [] = (d, Inr ())"
  proof
    assume "section_present (split_dot path) (yaml d)"
    from ensure_loop_present[OF this] obtain n where
      "ensure_loop (split_dot path) (yaml d) = (yaml d, False, Inr n)" by blast
    with assms show "set_values d path [] = (d, Inr ())"
      by (simp add: set_values_def ensure_section_def throw_if_corrupted_def)
  qed
  from e p show ?thesis
    using assms set_value_returned_dirty set_values_returned_dirty
      set_value_returns[of d path key v] set_values_returns[of d path vals]
    by blast
qed

theorem set_calls_mark_dirty_witness:
  "\<not> corrupted clean_doc \<and> \<not> dirty clean_doc \<and>
   along_mappings is_mapping (split_dot ''a'') (yaml clean_doc) \<and>
   set_value clean_doc ''a'' ''k'' (YInt 1) = (clean_doc\<lparr>dirty := True\<rparr>, Inr ()) \<and>
   set_values clean_doc ''a'' [(''k'', YInt 1)] = (clean_doc\<lparr>dirty := True\<rparr>, Inr ()) \<and>
   dirty (fst (set_value clean_doc ''a'' ''k'' (YInt 1))) \<and>
   dirty (fst (set_values clean_doc ''a'' [(''k'', YInt 1)])) \<and>
   section_present (split_dot ''a'') (yaml clean_doc) \<and>
   set_values clean_doc ''a'' [] = (clean_doc, Inr ()) \<and>
   dirty (fst (set_values clean_doc ''b'' []))"
proof -
  have h: "\<not> corrupted clean_doc" by (simp add: clean_doc_def)
  have a: "along_mappings is_mapping (split_dot ''a'') (yaml clean_doc)"
    by (simp add: clean_doc_def)
  have s1: "set_value clean_doc ''a'' ''k'' (YInt 1) = (clean_doc\<lparr>dirty := True\<rparr>, Inr ())"
    by (simp add: set_value_def ensure_section_def throw_if_corrupted_def clean_doc_def)
  have s2: "set_values clean_doc ''a'' [(''k'', YInt 1)] = (clean_doc\<lparr>dirty := True\<rparr>, Inr ())"
    by (simp add: set_values_def ensure_section_def throw_if_corrupted_def clean_doc_def)
  from set_calls_mark_dirty[OF h, of "''a''" "''k''" "YInt 1" "[(''k'', YInt 1)]"] s1 s2
  have "dirty (fst (set_value clean_doc ''a'' ''k'' (YInt 1)))"
    "dirty (fst (set_values clean_doc ''a'' [(''k'', YInt 1)]))"
    by auto
  moreover have sp: "section_present (split_dot ''a'') (yaml clean_doc)"
    by (simp add: clean_doc_def)
  moreover from set_calls_mark_dirty[OF h, of "''a''" "''k''" "YInt 1" "[]"] sp
  have "set_values clean_doc ''a'' [] = (clean_doc, Inr ())"
    by blast
  moreover have "dirty (fst (set_values clean_doc ''b'' []))"
    by (simp add: set_values_def ensure_section_def throw_if_corrupted_def clean_doc_def)
  ultimately show ?thesis using h a s1 s2 by (simp add: clean_doc_def)
qed

text \<open>
  C4. On an object built on a missing file, with a file system that refuses nothing and a
  parser that reads back the tree the serialiser wrote: \<open>_ensure_section(path)\<close>,
  \<open>set_value(path, key, v)\<close>, \<open>save()\<close>, \<open>load()\<close> all return, and
  \<open>get_value(path, key)\<close> then returns \<open>v\<close>, for every path, key and value.
\<close>

theorem written_value_is_read_back:
  assumes absent: "files w fname = None"
    and quiet: "\<forall>s p. fault w s p = None"
    and built: "YamlFile c w fname = Inr d0"
    and written: "run c [EnsureSection path, SetValue path key v] (w, d0) = (s2, rs)"
    and codec: "yaml_load c (yaml_dump c (yaml (snd s2))) = Inr (yaml (snd s2))"
  shows "\<exists>s5 n. run c [EnsureSection path, SetValue path key v, Save, Load,
                        GetValue path (Some key) dflt] (w, d0) =
                  (s5, [Inr n, Inr YNull, Inr YNull, Inr YNull, Inr v])"
proof -
  let ?ps = "split_dot path"
  have d0: "d0 = \<lparr>filename = fname, dirty = True, corrupted = False,
                   corrupted_error_message = None, yaml = YMap (Some default_comment) []\<rparr>"
    using YamlFile_absent[of w fname c] absent quiet built by simp
  then have "\<not> corrupted d0" "along_mappings is_mapping ?ps (yaml d0)"
    by (simp_all add: along_mappings_empty)
  from ensure_section_returns[OF this] obtain d1 n where
    e: "ensure_section d0 path = (d1, Inr n)" "section_present ?ps (yaml d1)"
       "\<not> corrupted d1" "filename d1 = filename d0" by blast
  from set_value_returns[OF e(3) section_present_along[OF e(2)], of key v] obtain d2 cm m where
    s: "set_value d1 path key v = (d2, Inr ())" "dirty d2" "\<not> corrupted d2"
       "filename d2 = filename d1"
       "get_section_loop ?ps (yaml d2) = Inr (YMap cm m)" "map_of m key = Some v" by blast
  have s2: "s2 = (w, d2)"
    using written e(1) s(1) by (simp add: returns_none_def)
  have nn: "yaml d2 \<noteq> YNull"
    using s(5) split_dot_nonempty[of path] by (cases ?ps) auto
  from save_succeeds[OF quiet s(3) s(2), of c] obtain w3 where
    sv: "save c w d2 = ((w3, d2\<lparr>dirty := False\<rparr>), Inr ())"
        "files w3 (filename d2) = Some (Text (yaml_dump c (yaml d2)))" "fault w3 = fault w"
    by blast
  let ?d3 = "d2\<lparr>dirty := False\<rparr>"
  let ?d4 = "?d3\<lparr>corrupted := False, corrupted_error_message := None, yaml := yaml d2,
                 dirty := False\<rparr>"
  have ld: "load c w3 ?d3 = (?d4, Inr ())"
    using load_parsed[of w3 ?d3 "yaml_dump c (yaml d2)" c "yaml d2"] sv quiet codec s2 nn
    by simp
  have gv: "get_value ?d4 path (Some key) dflt = (?d4, Inr v)"
    using get_value_found[of path ?d4 cm m key v dflt] s(5) s(6) by simp
  show ?thesis
    using e(1) s(1) sv(1) ld gv by (simp add: returns_none_def)
qed

theorem written_value_is_read_back_witness:
  "files quiet_world ''p.yml'' = None \<and>
   YamlFile test_codec quiet_world ''p.yml'' = Inr fresh_doc \<and>
   yaml_load test_codec (yaml_dump test_codec sample_tree) = Inr sample_tree \<and>
   snd (run test_codec
     [EnsureSection ''a.b.c'', SetValue ''a.b.c'' ''x'' (YInt 1), Save, Load,
      GetValue ''a.b.c'' (Some ''x'') YNull] (quiet_world, fresh_doc)) =
     [Inr (YMap None []), Inr YNull, Inr YNull, Inr YNull, Inr (YInt 1)]"
proof -
  have h1: "files quiet_world ''p.yml'' = None" by (simp add: sample_defs)
  have h2: "\<forall>s p. fault quiet_world s p = None" by (simp add: sample_defs)
  have h3: "YamlFile test_codec quiet_world ''p.yml'' = Inr fresh_doc"
    by (simp add: YamlFile_def load_def read_and_parse_def os_open_read_def fresh_if_none_def sample_defs)
  have h4: "run test_codec [EnsureSection ''a.b.c'', SetValue ''a.b.c'' ''x'' (YInt 1)]
              (quiet_world, fresh_doc) =
            ((quiet_world, fresh_doc\<lparr>yaml := sample_tree\<rparr>), [Inr (YMap None []), Inr YNull])"
    by (simp add: ensure_section_def set_value_def throw_if_corrupted_def returns_none_def
        sample_defs)
  have h5: "yaml_load test_codec (yaml_dump test_codec sample_tree) = Inr sample_tree"
    by (simp add: sample_defs)
  then have h5': "yaml_load test_codec
       (yaml_dump test_codec (yaml (snd (quiet_world, fresh_doc\<lparr>yaml := sample_tree\<rparr>)))) =
       Inr (yaml (snd (quiet_world, fresh_doc\<lparr>yaml := sample_tree\<rparr>)))"
    by simp
  from written_value_is_read_back[OF h1 h2 h3 h4 h5', of YNull] obtain s5 n where
    r: "run test_codec
     [EnsureSection ''a.b.c'', SetValue ''a.b.c'' ''x'' (YInt 1), Save, Load,
      GetValue ''a.b.c'' (Some ''x'') YNull] (quiet_world, fresh_doc) =
     (s5, [Inr n, Inr YNull, Inr YNull, Inr YNull, Inr (YInt 1)])" by blast
  have "n = YMap None []"
    using r h4 by (auto split: prod.splits)
  with r h1 h3 h5 show ?thesis by simp
qed

section \<open>Corrupted implies dirty\<close>

text \<open>
  C10. In every state that the constructor and any calls can lead to, a corrupted object is
  dirty; and from such a state the only call after which \<open>dirty\<close> is false is a
  \<open>load\<close> that returns and leaves the object not corrupted.
\<close>

theorem corrupted_implies_dirty:
  assumes "reachable c d" and "corrupted d"
  shows "dirty d \<and>
         (\<forall>x w w' d' r. exec c x (w, d) = ((w', d'), r) \<longrightarrow>
            dirty d' \<or> (x = Load \<and> r = Inr YNull \<and> \<not> corrupted d'))"
proof -
  have "dirty d" using assms by (rule reachable_corrupted_dirty)
  with assms(2) show ?thesis using exec_from_corrupted by blast
qed

theorem corrupted_implies_dirty_witness:
  "reachable test_codec broken_doc \<and> corrupted broken_doc \<and> dirty broken_doc \<and>
   dirty (snd (fst (exec test_codec Save (quiet_world, broken_doc))))"
proof -
  have "YamlFile test_codec broken_world ''p.yml'' = Inr broken_doc"
    by (simp add: YamlFile_def load_def read_and_parse_def os_open_read_def file_read_def fresh_if_none_def
        sample_defs)
  then have r: "reachable test_codec broken_doc" by (rule reachable.constructed)
  have c: "corrupted broken_doc" by (simp add: broken_doc_def)
  have e: "exec test_codec Save (quiet_world, broken_doc) =
             ((fst (fst (exec test_codec Save (quiet_world, broken_doc))),
               snd (fst (exec test_codec Save (quiet_world, broken_doc)))),
              snd (exec test_codec Save (quiet_world, broken_doc)))"
    by simp
  from corrupted_implies_dirty[OF r c] e
  have "dirty broken_doc"
    "dirty (snd (fst (exec test_codec Save (quiet_world, broken_doc)))) \<or>
       (Save = Load \<and> snd (exec test_codec Save (quiet_world, broken_doc)) = Inr YNull \<and>
        \<not> corrupted (snd (fst (exec test_codec Save (quiet_world, broken_doc)))))"
    by blast+
  with r c show ?thesis by simp
qed

end
